theory Spec2Isabelle
  imports Main "HOL-Library.Sublist" "HOL-Library.AList"
begin

section \<open>Strings\<close>

text \<open>
  A Python \<open>str\<close> is modelled as a \<open>string\<close>. The names the converter parses are
  read as ASCII text: the character classes below are the ASCII part of Python's
  \<open>\s\<close>, \<open>\w\<close> and \<open>str.lower\<close>, and a character beyond ASCII is in none of
  them and has no other case. The non-ASCII literals of the source are spelled by their
  UTF-8 bytes.
\<close>

definition isspace :: "char \<Rightarrow> bool" where
  "isspace c \<longleftrightarrow> c \<in> set [CHR 0x09, CHR 0x0A, CHR 0x0B, CHR 0x0C, CHR 0x0D,
                        CHR 0x1C, CHR 0x1D, CHR 0x1E, CHR 0x1F, CHR '' '']"

definition isword :: "char \<Rightarrow> bool" where
  "isword c \<longleftrightarrow>
     c \<in> set ''0123456789ABCDEFGHIJKLMNOPQRSTUVWXYZ_abcdefghijklmnopqrstuvwxyz''"

definition lower_char :: "char \<Rightarrow> char" where
  "lower_char c =
     (case map_of (zip ''ABCDEFGHIJKLMNOPQRSTUVWXYZ'' ''abcdefghijklmnopqrstuvwxyz'') c of
        Some d \<Rightarrow> d
      | None \<Rightarrow> c)"

definition lower :: "string \<Rightarrow> string" where
  "lower s = map lower_char s"

definition lstrip_with :: "(char \<Rightarrow> bool) \<Rightarrow> string \<Rightarrow> string" where
  "lstrip_with P s = dropWhile P s"

definition rstrip_with :: "(char \<Rightarrow> bool) \<Rightarrow> string \<Rightarrow> string" where
  "rstrip_with P s = rev (dropWhile P (rev s))"

definition strip_ws :: "string \<Rightarrow> string" where
  "strip_ws s = rstrip_with isspace (lstrip_with isspace s)"

definition strip_chars :: "string \<Rightarrow> string \<Rightarrow> string" where
  "strip_chars cs s = rstrip_with (\<lambda>c. c \<in> set cs) (lstrip_with (\<lambda>c. c \<in> set cs) s)"

definition rstrip_chars :: "string \<Rightarrow> string \<Rightarrow> string" where
  "rstrip_chars cs s = rstrip_with (\<lambda>c. c \<in> set cs) s"

section \<open>Route name parser\<close>

text \<open>
  \<open>re.match(r'^(GET|POST|PUT|DELETE|PATCH)\s+(.+?)(?:\?|$)', api_name, re.IGNORECASE)\<close>,
  followed the way the backtracking matcher runs it.

  \<open>lazy_tail\<close> is the lazy group 2 once it holds a character: it stops as soon as
  \<open>(?:\?|$)\<close> matches (a question mark, the end, or a line feed that ends the
  string), and otherwise takes one more character, which \<open>.\<close> refuses when it is a
  line feed.
\<close>

fun lazy_tail :: "string \<Rightarrow> string option" where
  "lazy_tail [] = Some []"
| "lazy_tail (c # cs) =
     (if c = CHR ''?'' then Some []
      else if c = CHR 0x0A then (if cs = [] then Some [] else None)
      else map_option ((#) c) (lazy_tail cs))"

fun lazy_group :: "string \<Rightarrow> string option" where
  "lazy_group [] = None"
| "lazy_group (c # cs) =
     (if c = CHR 0x0A then None else map_option ((#) c) (lazy_tail cs))"

text \<open>
  The greedy \<open>\s+\<close>, after its first character: it takes every whitespace character
  it can, and gives one back at a time while group 2 fails behind it.
\<close>

fun spaces_then_group :: "string \<Rightarrow> string option" where
  "spaces_then_group [] = lazy_group []"
| "spaces_then_group (c # cs) =
     (if isspace c
      then (case spaces_then_group cs of
              Some g \<Rightarrow> Some g
            | None \<Rightarrow> lazy_group (c # cs))
      else lazy_group (c # cs))"

fun after_verb :: "string \<Rightarrow> string option" where
  "after_verb [] = None"
| "after_verb (c # cs) = (if isspace c then spaces_then_group cs else None)"

definition verbs :: "string list" where
  "verbs = [''GET'', ''POST'', ''PUT'', ''DELETE'', ''PATCH'']"

text \<open>The alternation of group 1, tried in order, letter case ignored.\<close>

fun match_verbs :: "string list \<Rightarrow> string \<Rightarrow> (string \<times> string) option" where
  "match_verbs [] s = None"
| "match_verbs (v # vs) s =
     (if lower (take (length v) s) = lower v
      then (case after_verb (drop (length v) s) of
              Some g \<Rightarrow> Some (take (length v) s, g)
            | None \<Rightarrow> match_verbs vs s)
      else match_verbs vs s)"

definition route_match :: "string \<Rightarrow> (string \<times> string) option" where
  "route_match api_name = match_verbs verbs api_name"

text \<open>
  \<open>extract_path_and_method\<close>. The source also computes \<open>path_params\<close> with
  \<open>re.findall\<close> and never reads it; that line has no effect and is left out.
\<close>

definition extract_path_and_method :: "string \<Rightarrow> string \<times> string" where
  "extract_path_and_method api_name =
     (case route_match api_name of
        Some (g1, g2) \<Rightarrow>
          (let method = lower g1;
               path_raw = strip_ws g2;
               path = ''/'' @ strip_chars ''/'' path_raw
           in (method, path))
      | None \<Rightarrow> (''get'', ''/unknown''))"


section \<open>Parameter extractor\<close>

record parameter =
  p_name :: string
  p_in :: string
  p_required :: bool
  p_schema_type :: string
  p_description :: string

text \<open>
  \<open>([^}]+)\}\<close> right after an opening brace: the longest run of characters other
  than \<open>}\<close>, which must be non-empty and closed by \<open>}\<close>. The result is the group
  and the text behind the match.
\<close>

definition brace_group :: "string \<Rightarrow> (string \<times> string) option" where
  "brace_group s =
     (let g = takeWhile (\<lambda>c. c \<noteq> CHR ''}'') s;
          r = dropWhile (\<lambda>c. c \<noteq> CHR ''}'') s
      in if g \<noteq> [] \<and> r \<noteq> [] then Some (g, tl r) else None)"

fun brace_open :: "string \<Rightarrow> (string \<times> string) option" where
  "brace_open [] = None"
| "brace_open (c # cs) = (if c = CHR ''{'' then brace_group cs else None)"

text \<open>
  \<open>re.findall(r'/\{([^}]+)\}', s)\<close>: the matches from left to right, the search
  resuming behind each match and one character further where there is none.
\<close>

function findall_path :: "string \<Rightarrow> string list" where
  "findall_path [] = []"
| "findall_path (c # cs) =
     (if c = CHR ''/''
      then (case brace_open cs of
              Some (g, r) \<Rightarrow> g # findall_path r
            | None \<Rightarrow> findall_path cs)
      else findall_path cs)"
  by pat_completeness auto
termination
proof (relation "measure length")
  fix c :: char and cs :: string and x :: "string \<times> string" and g r :: string
  assume "brace_open cs = Some x" and "(g, r) = x"
  then have "brace_open cs = Some (g, r)" by simp
  then obtain t where "brace_group t = Some (g, r)" and "length t \<le> length cs"
    by (cases cs) (auto split: if_splits)
  moreover have "length (dropWhile (\<lambda>c. c \<noteq> CHR ''}'') t) \<le> length t"
    by (rule length_dropWhile_le)
  ultimately have "length r \<le> length cs"
    by (auto simp: brace_group_def Let_def split: if_splits)
  then show "(r, c # cs) \<in> measure length" by simp
qed simp_all

text \<open>
  \<open>(\w+)=\{([^}]+)\}\<close> at the start of the text: the longest run of word
  characters, then \<open>={\<close>, the brace group and its closing brace. A shorter run of
  word characters is followed by a word character, never by \<open>=\<close>, so giving
  characters back cannot help.
\<close>

definition query_pair :: "string \<Rightarrow> (string \<times> string \<times> string) option" where
  "query_pair s =
     (let w = takeWhile isword s; r = dropWhile isword s
      in if w = [] then None
         else (case r of
                 [] \<Rightarrow> None
               | e # t \<Rightarrow>
                   if e = CHR ''='' then
                     (case brace_open t of
                        Some (g, r') \<Rightarrow> Some (w, g, r')
                      | None \<Rightarrow> None)
                   else None))"

function findall_query :: "string \<Rightarrow> (string \<times> string) list" where
  "findall_query [] = []"
| "findall_query (c # cs) =
     (case query_pair (c # cs) of
        Some (w, g, r) \<Rightarrow> (w, g) # findall_query r
      | None \<Rightarrow> findall_query cs)"
  by pat_completeness auto
termination
proof (relation "measure length")
  fix c :: char and cs :: string and x :: "string \<times> string \<times> string"
    and w :: string and y :: "string \<times> string" and g r :: string
  assume "query_pair (c # cs) = Some x" and "(w, y) = x" and "(g, r) = y"
  then have q: "query_pair (c # cs) = Some (w, g, r)" by simp
  let ?d = "dropWhile isword (c # cs)"
  from q obtain t where d: "?d = CHR ''='' # t" and b: "brace_open t = Some (g, r)"
    by (auto simp: query_pair_def Let_def split: if_splits list.splits option.splits)
  have "length ?d \<le> length (c # cs)" by (rule length_dropWhile_le)
  with d have t: "length t \<le> length cs" by simp
  from b obtain u where "brace_group u = Some (g, r)" and "length u \<le> length t"
    by (cases t) (auto split: if_splits)
  moreover have "length (dropWhile (\<lambda>c. c \<noteq> CHR ''}'') u) \<le> length u"
    by (rule length_dropWhile_le)
  ultimately have "length r \<le> length t"
    by (auto simp: brace_group_def Let_def split: if_splits)
  with t show "(r, c # cs) \<in> measure length" by simp
qed simp_all

definition path_parameter :: "string \<Rightarrow> parameter" where
  "path_parameter param =
     \<lparr>p_name = param, p_in = ''path'', p_required = True, p_schema_type = ''string'',
      p_description =
        [CHR 0xE8, CHR 0xB7, CHR 0xAF, CHR 0xE5, CHR 0xBE, CHR 0x84,
         CHR 0xE5, CHR 0x8F, CHR 0x82, CHR 0xE6, CHR 0x95, CHR 0xB0, CHR '' ''] @ param\<rparr>"

definition query_parameter :: "string \<Rightarrow> parameter" where
  "query_parameter param_name =
     \<lparr>p_name = param_name, p_in = ''query'', p_required = False, p_schema_type = ''string'',
      p_description =
        [CHR 0xE6, CHR 0x9F, CHR 0xA5, CHR 0xE8, CHR 0xAF, CHR 0xA2,
         CHR 0xE5, CHR 0x8F, CHR 0x82, CHR 0xE6, CHR 0x95, CHR 0xB0, CHR '' ''] @ param_name\<rparr>"

text \<open>The two loops, over the state \<open>(parameters, seen_params)\<close>.\<close>

fun add_path_params ::
  "string list \<Rightarrow> parameter list \<times> string set \<Rightarrow> parameter list \<times> string set" where
  "add_path_params [] st = st"
| "add_path_params (param # rest) (parameters, seen_params) =
     (if param \<notin> seen_params
      then add_path_params rest (parameters @ [path_parameter param], insert param seen_params)
      else add_path_params rest (parameters, seen_params))"

fun add_query_params ::
  "(string \<times> string) list \<Rightarrow> parameter list \<times> string set \<Rightarrow> parameter list \<times> string set" where
  "add_query_params [] st = st"
| "add_query_params ((param_name, param_placeholder) # rest) (parameters, seen_params) =
     (if param_name \<notin> seen_params
      then add_query_params rest
             (parameters @ [query_parameter param_name], insert param_name seen_params)
      else add_query_params rest (parameters, seen_params))"

text \<open>\<open>api_name.split('?', 1)[1]\<close>, read only where \<open>'?' in api_name\<close>.\<close>

definition query_part :: "string \<Rightarrow> string" where
  "query_part api_name = tl (dropWhile (\<lambda>c. c \<noteq> CHR ''?'') api_name)"

definition extract_parameters_from_name :: "string \<Rightarrow> parameter list" where
  "extract_parameters_from_name api_name =
     (let st = add_path_params (findall_path api_name) ([], {});
          st' = (if CHR ''?'' \<in> set api_name
                 then add_query_params (findall_query (query_part api_name)) st
                 else st)
      in fst st')"




section \<open>Operation identifiers\<close>

text \<open>
  \<open>str.replace(old, new)\<close>: the occurrences of \<open>old\<close> from left to right, none
  overlapping another. With an empty \<open>old\<close> Python puts \<open>new\<close> around every
  character.
\<close>

fun py_replace :: "string \<Rightarrow> string \<Rightarrow> string \<Rightarrow> string" where
  "py_replace [] new s = new @ concat (map (\<lambda>c. c # new) s)"
| "py_replace (a # old) new [] = []"
| "py_replace (a # old) new (c # cs) =
     (if prefix (a # old) (c # cs)
      then new @ py_replace (a # old) new (drop (length old) cs)
      else c # py_replace (a # old) new cs)"

text \<open>\<open>str(n)\<close> for a counter value, which is never negative.\<close>

fun str_nat :: "nat \<Rightarrow> string" where
  "str_nat n =
     (if n < 10 then [''0123456789'' ! n]
      else str_nat (n div 10) @ [''0123456789'' ! (n mod 10)])"

declare str_nat.simps [simp del]

definition base_operation_id :: "string \<Rightarrow> string \<Rightarrow> string" where
  "base_operation_id method path =
     method @ ''_'' @
     strip_chars ''_'' (py_replace ''}'' [] (py_replace ''{'' [] (py_replace ''/'' ''_'' path)))"

type_synonym counter = "string \<rightharpoonup> nat"

text \<open>
  The collision handling on \<open>operation_id_counter\<close>; the result is the identifier and
  the counter after the call.
\<close>

definition allocate :: "string \<Rightarrow> counter \<Rightarrow> string \<times> counter" where
  "allocate base_id operation_id_counter =
     (case operation_id_counter base_id of
        Some n \<Rightarrow>
          (base_id @ ''_'' @ str_nat (n + 1), operation_id_counter(base_id \<mapsto> n + 1))
      | None \<Rightarrow> (base_id, operation_id_counter(base_id \<mapsto> 0)))"

text \<open>The identifiers a run of calls returns, the counter passed from call to call.\<close>

fun allocate_all :: "counter \<Rightarrow> string list \<Rightarrow> string list" where
  "allocate_all c [] = []"
| "allocate_all c (b # bs) = fst (allocate b c) # allocate_all (snd (allocate b c)) bs"

section \<open>Document assembler\<close>

text \<open>
  The input dictionaries. A key the converter reads with \<open>.get(key, default)\<close> is an
  option, \<open>None\<close> where the key is absent; \<open>api['name']\<close> is always there.
  \<open>api_groups\<close> is the list of its items in insertion order.
\<close>

record api_entry =
  a_name :: string
  a_url :: string
  a_description :: "string option"

record api_group =
  g_description :: "string option"
  g_apis :: "api_entry list option"

type_synonym api_groups = "(string \<times> api_group) list"

record response =
  r_description :: string
  r_schema_type :: "string option"

record operation =
  o_tags :: "string list"
  o_summary :: string
  o_description :: string
  o_operationId :: string
  o_responses :: "(string \<times> response) list"
  o_parameters :: "parameter list option"
  o_requestBody :: "string option"

record tag =
  t_name :: string
  t_description :: string

record server =
  s_url :: string
  s_description :: string

record info =
  i_title :: string
  i_description :: string
  i_version :: string

type_synonym paths = "(string \<times> (string \<times> operation) list) list"

record swagger =
  sw_openapi :: string
  sw_info :: info
  sw_servers :: "server list"
  sw_tags :: "tag list"
  sw_paths :: paths

record converter =
  base_url :: string

text \<open>\<open>__init__\<close>, without the HTTP session.\<close>

definition init :: "string \<Rightarrow> converter" where
  "init url = \<lparr>base_url = rstrip_chars ''/'' url\<rparr>"

text \<open>\<open>d.get(key, default)\<close> on the option that stands for the key.\<close>

fun get_default :: "'a option \<Rightarrow> 'a \<Rightarrow> 'a" where
  "get_default None d = d"
| "get_default (Some v) d = v"

text \<open>The literal \<open>' \<close>U+76F8 U+5173 U+63A5 U+53E3\<open>'\<close> of the tag fallback.\<close>

definition tag_suffix :: string where
  "tag_suffix = [CHR '' '', CHR 0xE7, CHR 0x9B, CHR 0xB8, CHR 0xE5, CHR 0x85, CHR 0xB3,
                 CHR 0xE6, CHR 0x8E, CHR 0xA5, CHR 0xE5, CHR 0x8F, CHR 0xA3]"

definition make_tag :: "string \<Rightarrow> api_group \<Rightarrow> tag" where
  "make_tag group_name group_data =
     (let tag_desc = get_default (g_description group_data) (group_name @ tag_suffix)
      in \<lparr>t_name = group_name,
          t_description = (if tag_desc \<noteq> [] then tag_desc else group_name @ tag_suffix)\<rparr>)"

definition responses :: "(string \<times> response) list" where
  "responses =
     [(''200'', \<lparr>r_description = [CHR 0xE6, CHR 0x88, CHR 0x90, CHR 0xE5, CHR 0x8A, CHR 0x9F,
                                  CHR 0xE5, CHR 0x93, CHR 0x8D, CHR 0xE5, CHR 0xBA, CHR 0x94],
               r_schema_type = Some ''object''\<rparr>),
      (''400'', \<lparr>r_description = [CHR 0xE8, CHR 0xAF, CHR 0xB7, CHR 0xE6, CHR 0xB1, CHR 0x82,
                                  CHR 0xE9, CHR 0x94, CHR 0x99, CHR 0xE8, CHR 0xAF, CHR 0xAF],
               r_schema_type = None\<rparr>),
      (''500'', \<lparr>r_description = [CHR 0xE6, CHR 0x9C, CHR 0x8D, CHR 0xE5, CHR 0x8A, CHR 0xA1,
                                  CHR 0xE5, CHR 0x99, CHR 0xA8, CHR 0xE9, CHR 0x94, CHR 0x99,
                                  CHR 0xE8, CHR 0xAF, CHR 0xAF],
               r_schema_type = None\<rparr>)]"

text \<open>The operation object of one entry, with its two optional keys.\<close>

definition make_operation ::
  "string \<Rightarrow> api_entry \<Rightarrow> string \<Rightarrow> parameter list \<Rightarrow> string \<Rightarrow> operation" where
  "make_operation group_name api method parameters operation_id =
     \<lparr>o_tags = [group_name],
      o_summary = a_name api,
      o_description = get_default (a_description api) ''No documentation available.'',
      o_operationId = operation_id,
      o_responses = responses,
      o_parameters = (if parameters \<noteq> [] then Some parameters else None),
      o_requestBody = (if method \<in> set [''post'', ''put'', ''patch''] then Some ''object'' else None)\<rparr>"

text \<open>
  What the loop body computes for one entry before it stores anything: the key
  \<open>(path, method)\<close>, the operation, and the counter after the allocation.
\<close>

definition build_operation ::
  "string \<Rightarrow> api_entry \<Rightarrow> counter \<Rightarrow> ((string \<times> string) \<times> operation) \<times> counter" where
  "build_operation group_name api operation_id_counter =
     (let (method, path) = extract_path_and_method (a_name api);
          parameters = extract_parameters_from_name (a_name api);
          (operation_id, counter') =
             allocate (base_operation_id method path) operation_id_counter
      in (((path, method), make_operation group_name api method parameters operation_id),
          counter'))"

text \<open>
  A Python dictionary that keeps insertion order is an association list: \<open>map_of\<close>
  reads it and \<open>AList.update\<close> assigns to a key, in place where the key is there and at
  the end where it is new. \<open>store\<close> is the initialisation of \<open>paths[path]\<close> followed
  by \<open>paths[path][method] = operation\<close>.
\<close>

definition store :: "string \<Rightarrow> string \<Rightarrow> operation \<Rightarrow> paths \<Rightarrow> paths" where
  "store path method operation ps =
     (let ps1 = (if path \<notin> fst ` set ps then AList.update path [] ps else ps)
      in AList.update path (AList.update method operation (get_default (map_of ps1 path) [])) ps1)"

definition process_api :: "string \<Rightarrow> paths \<times> counter \<Rightarrow> api_entry \<Rightarrow> paths \<times> counter" where
  "process_api group_name st api =
     (let (((path, method), operation), counter') = build_operation group_name api (snd st)
      in (store path method operation (fst st), counter'))"

definition process_group :: "paths \<times> counter \<Rightarrow> string \<times> api_group \<Rightarrow> paths \<times> counter" where
  "process_group st g =
     foldl (process_api (fst g)) st (get_default (g_apis (snd g)) [])"

definition convert_to_swagger :: "converter \<Rightarrow> api_groups \<Rightarrow> swagger" where
  "convert_to_swagger self api_groups =
     \<lparr>sw_openapi = ''3.0.0'',
      sw_info = \<lparr>i_title = ''ASP.NET Web API'',
                 i_description =
                   [CHR 0xE4, CHR 0xBB, CHR 0x8E] @ ''ASP.NET Help'' @
                   [CHR 0xE9, CHR 0xA1, CHR 0xB5, CHR 0xE9, CHR 0x9D, CHR 0xA2, CHR 0xE8, CHR 0xBD,
                    CHR 0xAC, CHR 0xE6, CHR 0x8D, CHR 0xA2, CHR 0xE7, CHR 0x9A, CHR 0x84] @ ''API'' @
                   [CHR 0xE6, CHR 0x96, CHR 0x87, CHR 0xE6, CHR 0xA1, CHR 0xA3],
                 i_version = ''1.0.0''\<rparr>,
      sw_servers =
        [\<lparr>s_url = py_replace ''/help'' [] (py_replace ''/Help'' [] (base_url self)),
          s_description = ''API'' @ [CHR 0xE6, CHR 0x9C, CHR 0x8D, CHR 0xE5, CHR 0x8A, CHR 0xA1,
                                    CHR 0xE5, CHR 0x99, CHR 0xA8]\<rparr>],
      sw_tags = map (\<lambda>(group_name, group_data). make_tag group_name group_data) api_groups,
      sw_paths = fst (foldl process_group ([], Map.empty) api_groups)\<rparr>"

text \<open>Reading \<open>paths[path][method]\<close>, \<open>None\<close> where either key is missing.\<close>

definition lookup :: "paths \<Rightarrow> string \<Rightarrow> string \<Rightarrow> operation option" where
  "lookup ps path method =
     (case map_of ps path of None \<Rightarrow> None | Some ms \<Rightarrow> map_of ms method)"

text \<open>
  The entries in processing order, each with its group, and the keyed operations the loop
  builds for them one after the other.
\<close>

definition entries :: "api_groups \<Rightarrow> (string \<times> api_entry) list" where
  "entries api_groups =
     concat (map (\<lambda>g. map (Pair (fst g)) (get_default (g_apis (snd g)) [])) api_groups)"

fun built :: "counter \<Rightarrow> (string \<times> api_entry) list \<Rightarrow> ((string \<times> string) \<times> operation) list" where
  "built c [] = []"
| "built c ((group_name, api) # es) =
     fst (build_operation group_name api c) # built (snd (build_operation group_name api c)) es"

text \<open>The loop body on an entry paired with its group: the nested loops as one loop.\<close>

definition step :: "paths \<times> counter \<Rightarrow> string \<times> api_entry \<Rightarrow> paths \<times> counter" where
  "step st e = process_api (fst e) st (snd e)"

text \<open>The key \<open>(path, method)\<close> an entry is stored under.\<close>

definition key_of :: "api_entry \<Rightarrow> string \<times> string" where
  "key_of api = (let (method, path) = extract_path_and_method (a_name api) in (path, method))"


section \<open>Example inputs\<close>

definition entry :: "string \<Rightarrow> string option \<Rightarrow> api_entry" where
  "entry n d = \<lparr>a_name = n, a_url = ''...'', a_description = d\<rparr>"

definition group :: "string option \<Rightarrow> api_entry list \<Rightarrow> api_group" where
  "group d apis = \<lparr>g_description = d, g_apis = Some apis\<rparr>"

text \<open>Example 4 of the specification.\<close>

definition orders_groups :: api_groups where
  "orders_groups = [(''Orders'', group (Some []) [entry ''GET orders/{id}'' (Some [])])]"

text \<open>Two overloads of one route, told apart by their query, and a route below it.\<close>

definition overload_groups :: api_groups where
  "overload_groups =
     [(''G'', group (Some []) [entry ''GET a?x={x}'' (Some ''by x''),
                               entry ''GET a?y={y}'' (Some ''by y''),
                               entry ''GET a/1'' (Some ''one'')])]"

text \<open>The same with the lower route overloaded as well.\<close>

definition overload2_groups :: api_groups where
  "overload2_groups =
     [(''G'', group (Some []) [entry ''GET a?x={x}'' (Some ''by x''),
                               entry ''GET a?y={y}'' (Some ''by y''),
                               entry ''GET a/1?x={x}'' (Some ''one by x''),
                               entry ''GET a/1?y={y}'' (Some ''one by y'')])]"

text \<open>Two entries on one key and a third with another method on the same path.\<close>

definition methods_groups :: api_groups where
  "methods_groups =
     [(''A'', group None [entry ''GET a'' (Some ''first''), entry ''POST a'' None]),
      (''B'', group None [entry ''get /a/'' (Some ''second'')])]"


section \<open>Properties of the route name parser\<close>






















section \<open>Properties of the parameter extractor\<close>











section \<open>Properties of the server entry\<close>










section \<open>The loop of the assembler\<close>

lemma lookup_store:
  "lookup (store p m op ps) p' m' = (if p' = p \<and> m' = m then Some op else lookup ps p' m')"
proof (cases "p \<in> fst ` set ps")
  case True
  then obtain ms where "map_of ps p = Some ms"
    by (meson map_of_eq_None_iff not_Some_eq)
  with True show ?thesis
    by (simp add: store_def lookup_def update_conv')
next
  case False
  then have "map_of ps p = None" by (simp add: map_of_eq_None_iff)
  with False show ?thesis
    by (simp add: store_def lookup_def update_conv')
qed

lemma set_update_subset: "set (AList.update k v al) \<subseteq> insert (k, v) (set al)"
  by (induction al) auto

lemma store_keys:
  assumes "distinct (map fst ps)" and "\<forall>ms\<in>snd ` set ps. distinct (map fst ms)"
  shows "distinct (map fst (store p m op ps))"
    and "\<forall>ms\<in>snd ` set (store p m op ps). distinct (map fst ms)"
proof -
  define ps1 where "ps1 = (if p \<notin> fst ` set ps then AList.update p [] ps else ps)"
  define ms where "ms = get_default (map_of ps1 p) []"
  have s: "store p m op ps = AList.update p (AList.update m op ms) ps1"
    by (simp add: store_def ps1_def ms_def Let_def)
  have d1: "distinct (map fst ps1)"
    using assms(1) by (simp add: ps1_def distinct_update)
  have v1: "\<forall>ms\<in>snd ` set ps1. distinct (map fst ms)"
    using assms(2) set_update_subset[of p "[]" ps] by (auto simp: ps1_def)
  have "distinct (map fst ms)"
  proof (cases "map_of ps1 p")
    case None
    then show ?thesis by (simp add: ms_def)
  next
    case (Some a)
    then have "(p, a) \<in> set ps1" by (rule map_of_SomeD)
    with v1 have "distinct (map fst a)" by force
    with Some show ?thesis by (simp add: ms_def)
  qed
  then have dm: "distinct (map fst (AList.update m op ms))" by (rule distinct_update)
  show "distinct (map fst (store p m op ps))"
    using d1 by (simp add: s distinct_update)
  show "\<forall>ms\<in>snd ` set (store p m op ps). distinct (map fst ms)"
    using v1 dm set_update_subset[of p "AList.update m op ms" ps1] by (auto simp: s)
qed

lemma foldl_entries:
  "foldl process_group st api_groups = foldl step st (entries api_groups)"
proof (induction api_groups arbitrary: st)
  case Nil
  then show ?case by (simp add: entries_def)
next
  case (Cons g gs)
  have "foldl (process_api (fst g)) st xs = foldl step st (map (Pair (fst g)) xs)" for xs
    by (induction xs arbitrary: st) (simp_all add: step_def)
  then show ?case using Cons by (simp add: entries_def process_group_def)
qed

lemma step_eq:
  "step (ps, c) (g, api) =
     (store (fst (fst (fst (build_operation g api c)))) (snd (fst (fst (build_operation g api c))))
        (snd (fst (build_operation g api c))) ps,
      snd (build_operation g api c))"
  by (simp add: step_def process_api_def case_prod_beta)

lemma lookup_foldl:
  "lookup (fst (foldl step (ps, c) es)) p m =
     (case map_of (rev (built c es)) (p, m) of Some op \<Rightarrow> Some op | None \<Rightarrow> lookup ps p m)"
proof (induction es arbitrary: ps c)
  case Nil
  then show ?case by simp
next
  case (Cons e es)
  obtain g api where e: "e = (g, api)" by (cases e)
  obtain k op c1 where b: "build_operation g api c = ((k, op), c1)"
    by (metis surj_pair)
  obtain p1 m1 where k: "k = (p1, m1)" by (cases k)
  have "foldl step (ps, c) (e # es) = foldl step (store p1 m1 op ps, c1) es"
    by (simp add: e step_eq b k)
  then show ?case
    by (simp add: Cons.IH e b k lookup_store map_add_def split: option.split)
qed

lemma keys_foldl:
  assumes "distinct (map fst ps)" and "\<forall>ms\<in>snd ` set ps. distinct (map fst ms)"
  shows "distinct (map fst (fst (foldl step (ps, c) es))) \<and>
         (\<forall>ms\<in>snd ` set (fst (foldl step (ps, c) es)). distinct (map fst ms))"
  using assms
proof (induction es arbitrary: ps c)
  case Nil
  then show ?case by simp
next
  case (Cons e es)
  obtain g api where e: "e = (g, api)" by (cases e)
  show ?case
    unfolding e foldl_Cons step_eq
    by (rule Cons.IH) (rule store_keys[OF Cons.prems])+
qed

lemma build_operation_eq:
  "fst (build_operation g api c) =
     (key_of api,
      make_operation g api (fst (extract_path_and_method (a_name api)))
        (extract_parameters_from_name (a_name api))
        (fst (allocate (base_operation_id (fst (extract_path_and_method (a_name api)))
                          (snd (extract_path_and_method (a_name api)))) c)))"
  by (simp add: build_operation_def key_of_def case_prod_beta Let_def)

lemma built_keys: "map fst (built c es) = map (\<lambda>e. key_of (snd e)) es"
  by (induction es arbitrary: c) (auto simp: build_operation_eq)


lemma built_member:
  "x \<in> set (built c es) \<Longrightarrow> \<exists>e\<in>set es. \<exists>c'. x = fst (build_operation (fst e) (snd e) c')"
proof (induction es arbitrary: c)
  case Nil
  then show ?case by simp
next
  case (Cons e es)
  obtain g api where e: "e = (g, api)" by (cases e)
  from Cons.prems consider "x = fst (build_operation g api c)"
    | "x \<in> set (built (snd (build_operation g api c)) es)"
    by (auto simp: e)
  then show ?case
  proof cases
    case 1
    then have "\<exists>c'. x = fst (build_operation (fst e) (snd e) c')" by (auto simp: e)
    then show ?thesis by simp
  next
    case 2
    from Cons.IH[OF this] show ?thesis by auto
  qed
qed

lemma lookup_empty: "lookup [] p m = None"
  by (simp add: lookup_def)

lemma paths_eq:
  "sw_paths (convert_to_swagger self api_groups) =
     fst (foldl step ([], Map.empty) (entries api_groups))"
  by (simp add: convert_to_swagger_def foldl_entries)

lemma lookup_paths:
  "lookup (sw_paths (convert_to_swagger self api_groups)) p m =
     map_of (rev (built Map.empty (entries api_groups))) (p, m)"
  by (simp add: paths_eq lookup_foldl lookup_empty split: option.split)

section \<open>The examples, evaluated\<close>

lemmas parse_eval = extract_path_and_method_def route_match_def verbs_def lower_def
  lower_char_def isspace_def strip_ws_def strip_chars_def rstrip_with_def lstrip_with_def

lemmas params_eval = extract_parameters_from_name_def query_part_def query_pair_def
  brace_group_def isword_def Let_def

lemma parse_examples:
  "extract_path_and_method ''GET a?x={x}'' = (''get'', ''/a'')"
  "extract_path_and_method ''GET a?y={y}'' = (''get'', ''/a'')"
  "extract_path_and_method ''GET a/1'' = (''get'', ''/a/1'')"
  "extract_path_and_method ''GET a/1?x={x}'' = (''get'', ''/a/1'')"
  "extract_path_and_method ''GET a/1?y={y}'' = (''get'', ''/a/1'')"
  "extract_path_and_method ''GET a'' = (''get'', ''/a'')"
  "extract_path_and_method ''POST a'' = (''post'', ''/a'')"
  "extract_path_and_method ''get /a/'' = (''get'', ''/a'')"
  "extract_path_and_method ''GET orders/{id}'' = (''get'', ''/orders/{id}'')"
  "extract_path_and_method ''orders/{id}?token={token}'' = (''get'', ''/unknown'')"
  by (simp_all add: parse_eval)

lemma params_examples:
  "extract_parameters_from_name ''GET a?x={x}'' = [query_parameter ''x'']"
  "extract_parameters_from_name ''GET a?y={y}'' = [query_parameter ''y'']"
  "extract_parameters_from_name ''GET a/1'' = []"
  "extract_parameters_from_name ''GET a/1?x={x}'' = [query_parameter ''x'']"
  "extract_parameters_from_name ''GET a/1?y={y}'' = [query_parameter ''y'']"
  "extract_parameters_from_name ''GET a'' = []"
  "extract_parameters_from_name ''POST a'' = []"
  "extract_parameters_from_name ''get /a/'' = []"
  "extract_parameters_from_name ''GET orders/{id}'' = [path_parameter ''id'']"
  "extract_parameters_from_name ''orders/{id}?token={token}'' =
     [path_parameter ''id'', query_parameter ''token'']"
  by (simp_all add: params_eval)

lemma base_examples:
  "base_operation_id ''get'' ''/a'' = ''get_a''"
  "base_operation_id ''post'' ''/a'' = ''post_a''"
  "base_operation_id ''get'' ''/a/1'' = ''get_a_1''"
  "base_operation_id ''get'' ''/orders/{id}'' = ''get_orders_id''"
  "base_operation_id ''get'' ''/unknown'' = ''get_unknown''"
  by (simp_all add: base_operation_id_def strip_chars_def rstrip_with_def lstrip_with_def)

lemma str_nat_examples:
  "str_nat 1 = ''1''" "str_nat (Suc 0) = ''1''" "str_nat 2 = ''2''" "str_nat (Suc (Suc 0)) = ''2''"
  by (simp_all add: str_nat.simps)

lemmas build_eval = build_operation_def allocate_def entries_def entry_def group_def
  parse_examples params_examples base_examples str_nat_examples

lemma built_overload:
  "built Map.empty (entries overload_groups) =
     [((''/a'', ''get''), make_operation ''G'' (entry ''GET a?x={x}'' (Some ''by x'')) ''get''
                            [query_parameter ''x''] ''get_a''),
      ((''/a'', ''get''), make_operation ''G'' (entry ''GET a?y={y}'' (Some ''by y'')) ''get''
                            [query_parameter ''y''] ''get_a_1''),
      ((''/a/1'', ''get''), make_operation ''G'' (entry ''GET a/1'' (Some ''one'')) ''get''
                            [] ''get_a_1'')]"
  by (simp add: overload_groups_def build_eval)


lemma built_methods:
  "built Map.empty (entries methods_groups) =
     [((''/a'', ''get''), make_operation ''A'' (entry ''GET a'' (Some ''first'')) ''get'' [] ''get_a''),
      ((''/a'', ''post''), make_operation ''A'' (entry ''POST a'' None) ''post'' [] ''post_a''),
      ((''/a'', ''get''), make_operation ''B'' (entry ''get /a/'' (Some ''second'')) ''get'' []
                            ''get_a_1'')]"
  by (simp add: methods_groups_def build_eval)

lemma built_orders:
  "built Map.empty (entries orders_groups) =
     [((''/orders/{id}'', ''get''),
       make_operation ''Orders'' (entry ''GET orders/{id}'' (Some [])) ''get''
         [path_parameter ''id''] ''get_orders_id'')]"
  by (simp add: orders_groups_def build_eval)


section \<open>Properties of the emitted document\<close>

lemma lookup_last:
  assumes "built Map.empty (entries api_groups) = pre @ ((p, m), op) # post"
    and "(p, m) \<notin> fst ` set post"
  shows "lookup (sw_paths (convert_to_swagger self api_groups)) p m = Some op"
proof -
  from assms(2) have "map_of (rev post) (p, m) = None"
    by (simp add: map_of_eq_None_iff)
  then show ?thesis
    by (simp add: lookup_paths assms(1) map_add_def)
qed

lemma lookup_absent:
  assumes "(p, m) \<notin> fst ` set (built Map.empty (entries api_groups))"
  shows "lookup (sw_paths (convert_to_swagger self api_groups)) p m = None"
  using assms by (simp add: lookup_paths map_of_eq_None_iff)

lemma paths_keys:
  "distinct (map fst (sw_paths (convert_to_swagger self api_groups))) \<and>
   (\<forall>ms\<in>snd ` set (sw_paths (convert_to_swagger self api_groups)). distinct (map fst ms))"
  unfolding paths_eq by (rule keys_foldl) simp_all

text \<open>
  Claim C5. The paths dictionary and each dictionary of methods in it have one entry for
  a key. The keys of the operations the loop builds are the keys of the entries in
  processing order; the operation the document holds at a key is the one built last for
  it, whatever was built for other keys, other methods of the same path among them; and a
  key no entry has is absent.
\<close>

theorem paths_last_entry_wins:
  "distinct (map fst (sw_paths (convert_to_swagger self api_groups))) \<and>
   (\<forall>ms\<in>snd ` set (sw_paths (convert_to_swagger self api_groups)). distinct (map fst ms)) \<and>
   map fst (built Map.empty (entries api_groups)) =
     map (\<lambda>e. key_of (snd e)) (entries api_groups) \<and>
   (built Map.empty (entries api_groups) = pre @ ((p, m), op) # post \<and>
    (p, m) \<notin> fst ` set post \<longrightarrow>
      lookup (sw_paths (convert_to_swagger self api_groups)) p m = Some op) \<and>
   ((p, m) \<notin> fst ` set (built Map.empty (entries api_groups)) \<longrightarrow>
      lookup (sw_paths (convert_to_swagger self api_groups)) p m = None)"
  using paths_keys[of self api_groups] built_keys[of Map.empty "entries api_groups"]
    lookup_last[of api_groups pre p m op post self] lookup_absent[of p m api_groups self]
  by blast

theorem paths_last_entry_wins_witness:
  "lookup (sw_paths (convert_to_swagger (init ''http://h/Help'') methods_groups)) ''/a'' ''get'' =
     Some (make_operation ''B'' (entry ''get /a/'' (Some ''second'')) ''get'' [] ''get_a_1'') \<and>
   lookup (sw_paths (convert_to_swagger (init ''http://h/Help'') methods_groups)) ''/a'' ''post'' =
     Some (make_operation ''A'' (entry ''POST a'' None) ''post'' [] ''post_a'') \<and>
   lookup (sw_paths (convert_to_swagger (init ''http://h/Help'') methods_groups)) ''/b'' ''get'' =
     None"
  using
    paths_last_entry_wins[of "init ''http://h/Help''" methods_groups
      "[((''/a'', ''get''), make_operation ''A'' (entry ''GET a'' (Some ''first'')) ''get'' [] ''get_a''),
        ((''/a'', ''post''), make_operation ''A'' (entry ''POST a'' None) ''post'' [] ''post_a'')]"
      "''/a''" "''get''"
      "make_operation ''B'' (entry ''get /a/'' (Some ''second'')) ''get'' [] ''get_a_1''" "[]"]
    paths_last_entry_wins[of "init ''http://h/Help''" methods_groups
      "[((''/a'', ''get''), make_operation ''A'' (entry ''GET a'' (Some ''first'')) ''get'' [] ''get_a'')]"
      "''/a''" "''post''"
      "make_operation ''A'' (entry ''POST a'' None) ''post'' [] ''post_a''"
      "[((''/a'', ''get''), make_operation ''B'' (entry ''get /a/'' (Some ''second'')) ''get'' []
                            ''get_a_1'')]"]
    paths_last_entry_wins[of "init ''http://h/Help''" methods_groups "[]" "''/b''" "''get''"]
  by (simp add: built_methods)

lemma build_operation_fields:
  "fst (fst (build_operation g api c)) = key_of api"
  "o_summary (snd (fst (build_operation g api c))) = a_name api"
  "o_tags (snd (fst (build_operation g api c))) = [g]"
  "o_description (snd (fst (build_operation g api c))) =
     (case a_description api of Some d \<Rightarrow> d | None \<Rightarrow> ''No documentation available.'')"
  "o_parameters (snd (fst (build_operation g api c))) =
     (if extract_parameters_from_name (a_name api) = [] then None
      else Some (extract_parameters_from_name (a_name api)))"
  by (simp_all add: build_operation_eq make_operation_def split: option.split)

lemma emitted_from_entry:
  assumes "lookup (sw_paths (convert_to_swagger self api_groups)) p m = Some op"
  shows "\<exists>e\<in>set (entries api_groups). \<exists>c. ((p, m), op) = fst (build_operation (fst e) (snd e) c)"
proof -
  from assms have "map_of (rev (built Map.empty (entries api_groups))) (p, m) = Some op"
    by (simp add: lookup_paths)
  then have "((p, m), op) \<in> set (built Map.empty (entries api_groups))"
    by (auto dest: map_of_SomeD)
  then show ?thesis by (rule built_member)
qed

text \<open>
  Claim C7, amended. The operation built for an entry carries the entry's description
  where the entry has one, the empty string included, and the literal
  \<open>No documentation available.\<close> where the entry has no description key. Every
  operation of the emitted document is the operation built for one of the entries, so it
  carries that entry's name as summary and its description by this rule.
\<close>

theorem operation_description:
  "o_description (snd (fst (build_operation g api c))) =
     (case a_description api of Some d \<Rightarrow> d | None \<Rightarrow> ''No documentation available.'') \<and>
   (lookup (sw_paths (convert_to_swagger self api_groups)) p m = Some op \<longrightarrow>
      (\<exists>e\<in>set (entries api_groups). key_of (snd e) = (p, m) \<and> o_summary op = a_name (snd e) \<and>
         o_description op =
           (case a_description (snd e) of Some d \<Rightarrow> d
            | None \<Rightarrow> ''No documentation available.'')))"
proof (intro conjI impI)
  show "o_description (snd (fst (build_operation g api c))) =
     (case a_description api of Some d \<Rightarrow> d | None \<Rightarrow> ''No documentation available.'')"
    by (rule build_operation_fields)
next
  assume "lookup (sw_paths (convert_to_swagger self api_groups)) p m = Some op"
  from emitted_from_entry[OF this] obtain e c where e: "e \<in> set (entries api_groups)"
    and b: "((p, m), op) = fst (build_operation (fst e) (snd e) c)" by blast
  from b have "(p, m) = fst (fst (build_operation (fst e) (snd e) c))"
    and "op = snd (fst (build_operation (fst e) (snd e) c))"
    by (metis fst_conv, metis snd_conv)
  then have "key_of (snd e) = (p, m) \<and> o_summary op = a_name (snd e) \<and>
         o_description op =
           (case a_description (snd e) of Some d \<Rightarrow> d
            | None \<Rightarrow> ''No documentation available.'')"
    by (simp add: build_operation_fields)
  with e show "\<exists>e\<in>set (entries api_groups). key_of (snd e) = (p, m) \<and>
      o_summary op = a_name (snd e) \<and>
      o_description op =
        (case a_description (snd e) of Some d \<Rightarrow> d | None \<Rightarrow> ''No documentation available.'')"
    by blast
qed

theorem operation_description_witness:
  "lookup (sw_paths (convert_to_swagger (init ''http://h/Help'') methods_groups)) ''/a'' ''post'' =
     Some (make_operation ''A'' (entry ''POST a'' None) ''post'' [] ''post_a'') \<and>
   (\<exists>e\<in>set (entries methods_groups). key_of (snd e) = (''/a'', ''post'') \<and>
      ''POST a'' = a_name (snd e) \<and>
      ''No documentation available.'' =
        (case a_description (snd e) of Some d \<Rightarrow> d | None \<Rightarrow> ''No documentation available.''))"
proof -
  have l: "lookup (sw_paths (convert_to_swagger (init ''http://h/Help'') methods_groups))
      ''/a'' ''post'' = Some (make_operation ''A'' (entry ''POST a'' None) ''post'' [] ''post_a'')"
    by (simp add: lookup_paths built_methods)
  from operation_description[of _ _ _ "init ''http://h/Help''" methods_groups "''/a''" "''post''"
      "make_operation ''A'' (entry ''POST a'' None) ''post'' [] ''post_a''"] l
  show ?thesis by (simp add: make_operation_def entry_def)
qed

text \<open>
  Claim C7 as stated fails on an entry whose description is the empty string, as in
  example 4 of the specification: the operation keeps the empty string.
\<close>

theorem operation_description_empty:
  "entries orders_groups = [(''Orders'', entry ''GET orders/{id}'' (Some []))] \<and>
   a_description (entry ''GET orders/{id}'' (Some [])) = Some [] \<and>
   map_option o_description
     (lookup (sw_paths (convert_to_swagger (init ''http://h/Help'') orders_groups))
        ''/orders/{id}'' ''get'') = Some [] \<and>
   [] \<noteq> ''No documentation available.''"
  by (simp add: lookup_paths built_orders make_operation_def)
    (simp add: entries_def orders_groups_def group_def entry_def)

text \<open>
  Claim C8, amended. The tags array has one entry for each group, in order, with the
  group's identifier as name. Its description is the group's description where there is a
  non-empty one, and otherwise the identifier followed by a space and the four
  characters U+76F8 U+5173 U+63A5 U+53E3, the literal of the source; for the group
  \<open>Orders\<close> with an empty description that is \<open>Orders\<close> followed by this suffix.
\<close>

theorem tags_of_groups:
  "sw_tags (convert_to_swagger self api_groups) =
     map (\<lambda>(group_name, group_data).
            \<lparr>t_name = group_name,
             t_description =
               (case g_description group_data of
                  None \<Rightarrow> group_name @ tag_suffix
                | Some d \<Rightarrow> if d = [] then group_name @ tag_suffix else d)\<rparr>) api_groups \<and>
   sw_tags (convert_to_swagger self orders_groups) =
     [\<lparr>t_name = ''Orders'', t_description = ''Orders'' @ tag_suffix\<rparr>]"
proof
  have "make_tag n d =
      \<lparr>t_name = n,
       t_description =
         (case g_description d of None \<Rightarrow> n @ tag_suffix
          | Some x \<Rightarrow> if x = [] then n @ tag_suffix else x)\<rparr>" for n d
    by (cases "g_description d") (simp_all add: make_tag_def tag_suffix_def)
  then show "sw_tags (convert_to_swagger self api_groups) =
     map (\<lambda>(group_name, group_data).
            \<lparr>t_name = group_name,
             t_description =
               (case g_description group_data of
                  None \<Rightarrow> group_name @ tag_suffix
                | Some d \<Rightarrow> if d = [] then group_name @ tag_suffix else d)\<rparr>) api_groups"
    by (simp add: convert_to_swagger_def)
  show "sw_tags (convert_to_swagger self orders_groups) =
     [\<lparr>t_name = ''Orders'', t_description = ''Orders'' @ tag_suffix\<rparr>]"
    by (simp add: convert_to_swagger_def orders_groups_def group_def make_tag_def)
qed

text \<open>
  Claim C8 as stated fails on its own example: the description of the tag is not the
  English string.
\<close>

theorem tags_not_english:
  "sw_tags (convert_to_swagger (init ''http://h/Help'') orders_groups) \<noteq>
     [\<lparr>t_name = ''Orders'', t_description = ''Orders related interfaces''\<rparr>]"
  by (simp add: convert_to_swagger_def orders_groups_def group_def make_tag_def tag_suffix_def)

section \<open>Operation identifiers in the document\<close>

text \<open>
  The allocator by itself does what claim C1 says of one base identifier: the base
  identifier is the method, an underscore and the path with slashes turned into
  underscores, braces removed and underscores trimmed at both ends; the first call for a
  base identifier returns it, and a call that \<open>k\<close> calls for the same base identifier
  precede returns it with the suffix \<open>_k\<close>. The identifiers of the operations the loop
  builds are the ones such a run of calls returns.
\<close>

lemma py_replace_char: "py_replace [a] [b] s = map (\<lambda>c. if c = a then b else c) s"
  by (induction s) auto

lemma py_replace_delete: "py_replace [a] [] s = filter (\<lambda>c. c \<noteq> a) s"
  by (induction s) auto

lemma base_operation_id_eq:
  "base_operation_id method path =
     method @ ''_'' @
     strip_chars ''_''
       (filter (\<lambda>c. c \<noteq> CHR ''{'' \<and> c \<noteq> CHR ''}'')
          (map (\<lambda>c. if c = CHR ''/'' then CHR ''_'' else c) path))"
  by (simp add: base_operation_id_def py_replace_char py_replace_delete conj_commute)

lemma allocate_all_nth:
  assumes "\<forall>b. c b = (if n b = 0 then None else Some (n b - 1))" and "i < length bs"
  shows "allocate_all c bs ! i =
     (if n (bs ! i) + count_list (take i bs) (bs ! i) = 0 then bs ! i
      else bs ! i @ ''_'' @ str_nat (n (bs ! i) + count_list (take i bs) (bs ! i)))"
  using assms
proof (induction bs arbitrary: c n i)
  case Nil
  then show ?case by simp
next
  case (Cons b bs)
  show ?case
  proof (cases i)
    case 0
    with Cons.prems(1) show ?thesis by (simp add: allocate_def)
  next
    case (Suc j)
    let ?c = "snd (allocate b c)"
    let ?n = "n(b := n b + 1)"
    from Cons.prems(1) have inv: "\<forall>x. ?c x = (if ?n x = 0 then None else Some (?n x - 1))"
      by (auto simp: allocate_def)
    from Suc Cons.prems(2) have j: "j < length bs" by simp
    from Cons.IH[OF inv j] Suc show ?thesis by simp
  qed
qed

lemma allocate_all_policy:
  "i < length bs \<Longrightarrow>
   allocate_all Map.empty bs ! i =
     (if count_list (take i bs) (bs ! i) = 0 then bs ! i
      else bs ! i @ ''_'' @ str_nat (count_list (take i bs) (bs ! i)))"
  using allocate_all_nth[of Map.empty "\<lambda>_. 0" i bs] by simp

lemma built_ids:
  "map (\<lambda>x. o_operationId (snd x)) (built c es) =
     allocate_all c (map (\<lambda>e. base_operation_id (snd (key_of (snd e))) (fst (key_of (snd e)))) es)"
proof (induction es arbitrary: c)
  case Nil
  then show ?case by simp
next
  case (Cons e es)
  obtain g api where e: "e = (g, api)" by (cases e)
  show ?case
    by (simp add: e Cons.IH) (simp add: build_operation_def make_operation_def key_of_def
        case_prod_beta Let_def)
qed

text \<open>
  Calls for one base identifier never return the same identifier twice, and where two
  entries share a key the later one has a suffixed identifier. Where the identifiers of
  a build are pairwise distinct, the identifier of an overwritten entry is on no
  operation of the document.
\<close>

lemma digit_inj:
  "a < 10 \<Longrightarrow> b < 10 \<Longrightarrow> ''0123456789'' ! a = ''0123456789'' ! b \<Longrightarrow> a = b"
  by (rule nth_eq_iff_index_eq[THEN iffD1, of "''0123456789''"]) simp_all

lemma str_nat_nonempty: "str_nat n \<noteq> []"
  by (subst str_nat.simps) simp

lemma str_nat_inj: "str_nat n = str_nat m \<Longrightarrow> n = m"
proof (induction n arbitrary: m rule: str_nat.induct)
  case (1 n)
  show ?case
  proof (cases "n < 10")
    case True
    show ?thesis
    proof (cases "m < 10")
      case m: True
      with True "1.prems" show ?thesis
        by (simp add: str_nat.simps[of n] str_nat.simps[of m] digit_inj)
    next
      case False
      with True "1.prems" show ?thesis
        using str_nat_nonempty[of "m div 10"]
        by (simp add: str_nat.simps[of n] str_nat.simps[of m])
    qed
  next
    case False
    show ?thesis
    proof (cases "m < 10")
      case True
      with False "1.prems" show ?thesis
        using str_nat_nonempty[of "n div 10"]
        by (simp add: str_nat.simps[of n] str_nat.simps[of m])
    next
      case m: False
      with False "1.prems" have e: "str_nat (n div 10) = str_nat (m div 10)"
        and l: "''0123456789'' ! (n mod 10) = ''0123456789'' ! (m mod 10)"
        by (simp_all add: str_nat.simps[of n] str_nat.simps[of m])
      from "1.IH"[OF False e] have "n div 10 = m div 10" .
      moreover from l have "n mod 10 = m mod 10" by (intro digit_inj) simp_all
      ultimately show ?thesis by (metis div_mult_mod_eq)
    qed
  qed
qed

lemma same_base_distinct:
  assumes "i < j" and "j < length bs" and "bs ! i = bs ! j"
  shows "allocate_all Map.empty bs ! i \<noteq> allocate_all Map.empty bs ! j"
proof -
  let ?x = "bs ! j"
  let ?t = "take j bs"
  from assms have i: "i < length bs" by simp
  from assms have it: "i < length ?t" by simp
  have "?t = take i ?t @ drop i ?t" by (simp only: append_take_drop_id)
  also have "take i ?t = take i bs" using assms(1) by (simp add: min_def)
  also have "drop i ?t = ?t ! i # drop (Suc i) ?t"
    using it by (simp only: Cons_nth_drop_Suc)
  also have "?t ! i = ?x" using assms(1,3) by simp
  finally have "?t = take i bs @ ?x # drop (Suc i) ?t" .
  then have "count_list ?t ?x = count_list (take i bs @ ?x # drop (Suc i) ?t) ?x"
    by simp
  then have lt: "count_list (take i bs) ?x < count_list ?t ?x" by simp
  have a: "allocate_all Map.empty bs ! i =
      (if count_list (take i bs) ?x = 0 then ?x
       else ?x @ ''_'' @ str_nat (count_list (take i bs) ?x))"
    using allocate_all_policy[OF i] assms(3) by simp
  have b: "allocate_all Map.empty bs ! j = ?x @ ''_'' @ str_nat (count_list ?t ?x)"
    using allocate_all_policy[OF assms(2)] lt by simp
  show ?thesis
  proof (cases "count_list (take i bs) ?x = 0")
    case True
    with a b show ?thesis by simp
  next
    case False
    have "str_nat (count_list (take i bs) ?x) \<noteq> str_nat (count_list ?t ?x)"
      using lt str_nat_inj by fastforce
    with False a b show ?thesis by simp
  qed
qed

lemma built_ids_keys:
  "map (\<lambda>x. o_operationId (snd x)) (built c es) =
     allocate_all c (map (\<lambda>x. base_operation_id (snd (fst x)) (fst (fst x))) (built c es))"
proof -
  have "map (\<lambda>x. base_operation_id (snd (fst x)) (fst (fst x))) (built c es) =
      map (\<lambda>k. base_operation_id (snd k) (fst k)) (map fst (built c es))"
    by simp
  also have "\<dots> = map (\<lambda>e. base_operation_id (snd (key_of (snd e))) (fst (key_of (snd e)))) es"
    by (simp only: built_keys) simp
  finally show ?thesis by (simp only: built_ids)
qed

lemma later_entry_suffixed:
  assumes "built Map.empty es = pre @ ((p, m), op1) # mid @ ((p, m), op2) # post"
  shows "\<exists>k>0. o_operationId op2 = base_operation_id m p @ ''_'' @ str_nat k"
proof -
  let ?base = "\<lambda>x::(string \<times> string) \<times> operation. base_operation_id (snd (fst x)) (fst (fst x))"
  let ?bs = "map ?base (built Map.empty es)"
  let ?j = "length pre + 1 + length mid"
  have bs: "?bs = map ?base pre @ base_operation_id m p # map ?base mid @
      base_operation_id m p # map ?base post"
    by (simp add: assms)
  have j: "?j < length ?bs" by (simp add: assms)
  have nth: "?bs ! ?j = base_operation_id m p"
    by (simp add: bs nth_append)
  have tk: "take ?j ?bs = map ?base pre @ base_operation_id m p # map ?base mid"
    by (simp add: bs)
  have cnt: "0 < count_list (take ?j ?bs) (?bs ! ?j)"
    by (simp only: tk nth) simp
  have "o_operationId op2 = map (\<lambda>x. o_operationId (snd x)) (built Map.empty es) ! ?j"
    by (simp add: assms nth_append)
  also have "\<dots> = allocate_all Map.empty ?bs ! ?j"
    by (simp only: built_ids_keys)
  also have "\<dots> = ?bs ! ?j @ ''_'' @ str_nat (count_list (take ?j ?bs) (?bs ! ?j))"
    using allocate_all_policy[OF j] cnt by simp
  finally have "o_operationId op2 =
      base_operation_id m p @ ''_'' @ str_nat (count_list (take ?j ?bs) (?bs ! ?j))"
    by (simp only: nth)
  with cnt show ?thesis by blast
qed

lemma distinct_map_eq:
  "distinct (map f xs) \<Longrightarrow> x \<in> set xs \<Longrightarrow> y \<in> set xs \<Longrightarrow> f x = f y \<Longrightarrow> x = y"
  by (meson distinct_map inj_on_def)

lemma overwritten_id_absent:
  assumes d: "distinct (map (\<lambda>x. o_operationId (snd x)) (built Map.empty (entries api_groups)))"
    and b: "built Map.empty (entries api_groups) = pre @ ((p, m), op1) # mid @ ((p, m), op2) # post"
    and n: "(p, m) \<notin> fst ` set post"
  shows "lookup (sw_paths (convert_to_swagger self api_groups)) p m = Some op2"
    and "lookup (sw_paths (convert_to_swagger self api_groups)) p' m' = Some op \<Longrightarrow>
         o_operationId op \<noteq> o_operationId op1"
proof -
  let ?B = "built Map.empty (entries api_groups)"
  have b': "?B = (pre @ ((p, m), op1) # mid) @ ((p, m), op2) # post"
    by (simp add: b)
  show l: "lookup (sw_paths (convert_to_swagger self api_groups)) p m = Some op2"
    by (rule lookup_last[OF b' n])
  have ne: "o_operationId op2 \<noteq> o_operationId op1"
    using d by (auto simp: b)
  assume "lookup (sw_paths (convert_to_swagger self api_groups)) p' m' = Some op"
  then have "map_of (rev ?B) (p', m') = Some op" by (simp add: lookup_paths)
  then have mem: "((p', m'), op) \<in> set ?B" by (auto dest: map_of_SomeD)
  have mem1: "((p, m), op1) \<in> set ?B" by (simp add: b)
  show "o_operationId op \<noteq> o_operationId op1"
  proof
    assume eq: "o_operationId op = o_operationId op1"
    have "((p', m'), op) = ((p, m), op1)"
      by (rule distinct_map_eq[OF d mem mem1]) (simp add: eq)
    then have "p' = p" "m' = m" "op = op1" by simp_all
    with \<open>lookup (sw_paths (convert_to_swagger self api_groups)) p' m' = Some op\<close> l
    have "op1 = op2" by simp
    with ne show False by simp
  qed
qed




text \<open>
  Claim C1 fails on the code: the second overload of \<open>/a\<close> is given \<open>get_a_1\<close>, and
  so is the first entry of \<open>/a/1\<close>, whose base identifier is that very string. Both
  operations are in the emitted document with the same identifier.
\<close>

theorem operation_ids_collide:
  "map (\<lambda>x. o_operationId (snd x)) (built Map.empty (entries overload_groups)) =
     [''get_a'', ''get_a_1'', ''get_a_1''] \<and>
   map_option o_operationId
     (lookup (sw_paths (convert_to_swagger (init ''http://h/Help'') overload_groups)) ''/a'' ''get'') =
     Some ''get_a_1'' \<and>
   map_option o_operationId
     (lookup (sw_paths (convert_to_swagger (init ''http://h/Help'') overload_groups)) ''/a/1'' ''get'') =
     Some ''get_a_1''"
  by (simp add: lookup_paths built_overload make_operation_def)

text \<open>
  Claim C9 fails on the code for the same reason. The two overloads of \<open>/a/1\<close> are
  given \<open>get_a_1\<close> and \<open>get_a_1_1\<close>, and the second one survives; but the base
  identifier \<open>get_a_1\<close> of the overwritten entry is in the emitted document, on the
  operation of \<open>/a\<close>.
\<close>

theorem overwritten_id_reappears:
  "map (\<lambda>x. (fst x, o_operationId (snd x))) (built Map.empty (entries overload2_groups)) =
     [((''/a'', ''get''), ''get_a''), ((''/a'', ''get''), ''get_a_1''),
      ((''/a/1'', ''get''), ''get_a_1''), ((''/a/1'', ''get''), ''get_a_1_1'')] \<and>
   base_operation_id ''get'' ''/a/1'' = ''get_a_1'' \<and>
   map_option o_operationId
     (lookup (sw_paths (convert_to_swagger (init ''http://h/Help'') overload2_groups)) ''/a/1'' ''get'') =
     Some ''get_a_1_1'' \<and>
   map_option o_operationId
     (lookup (sw_paths (convert_to_swagger (init ''http://h/Help'') overload2_groups)) ''/a'' ''get'') =
     Some ''get_a_1''"
  by (simp add: lookup_paths overload2_groups_def build_eval make_operation_def)

end
